theory Spec2Isabelle
  imports Main "HOL-Library.Multiset"
begin

section \<open>The voting system backend (PythonAPI/main.py)\<close>

text \<open>
  The program is a FastAPI application over a PostgreSQL database reached through the
  SQLAlchemy ORM. Every endpoint is modelled as a function of the store (the three
  tables) that returns the store after the request together with either the response or
  the exception the endpoint ends with. The database, the password hashing library
  (passlib) and the token library (python-jose) are the program's collaborators; what
  the model takes from their documented behaviour is said where it is used.

  Times are seconds since the epoch, as integers; identifiers are Python integers.
\<close>

subsection \<open>Exceptions\<close>

text \<open>
  \<open>HTTPException\<close> is what the endpoints raise themselves (status code and detail).
  The other constructors are exceptions of the libraries that no endpoint catches:
  they leave the endpoint as they are (the framework answers 500) and the request's
  transaction is rolled back when \<open>get_db\<close> closes the session.
\<close>

datatype error =
    HTTPException nat string
  | IntegrityError
  | DataError
  | UnknownHashError
  | MalformedHashError
  | ValidationError
  | AttributeError

subsection \<open>Database models\<close>

text \<open>
  A password digest is a string. The strings that bcrypt produces are modelled
  symbolically, by the salt and the secret they were computed from (an ideal hash: two
  digests are equal only if salt and secret are); every other string is kept as it is.
\<close>

datatype digest = Bcrypt string string | Other string

text \<open>
  The three tables. The columns \<open>id\<close>, \<open>user_id\<close>, \<open>feature_id\<close> and
  \<open>created_at\<close> occur in several models and carry the table's initial here. The
  column \<open>updated_at\<close> is never read and is left out.
\<close>

record user =
  u_id :: int
  username :: string
  email :: string
  password_hash :: digest
  u_created_at :: int

record feature =
  f_id :: int
  title :: string
  description :: string
  f_user_id :: int
  vote_count :: int
  status :: string
  f_created_at :: int

record vote =
  v_id :: int
  v_user_id :: int
  v_feature_id :: int
  vote_type :: int
  v_created_at :: int

text \<open>
  The store: each table is the list of its rows in the order in which the database
  scans it (a query without \<open>ORDER BY\<close> returns the rows in that order, and
  \<open>first()\<close> the first of them), and each primary key has its sequence.
\<close>

record store =
  users :: "user list"
  features :: "feature list"
  votes :: "vote list"
  users_id_seq :: int
  features_id_seq :: int
  votes_id_seq :: int

definition empty_store :: store where
  "empty_store = \<lparr>users = [], features = [], votes = [],
     users_id_seq = 1, features_id_seq = 1, votes_id_seq = 1\<rparr>"

subsection \<open>Writes and their constraints\<close>

text \<open>
  \<open>db.add(row); db.commit()\<close> inserts the row with the next value of the sequence as
  its primary key. The database rejects the insert with \<open>IntegrityError\<close> when a
  constraint declared by the model fails: the primary key, \<open>unique=True\<close>,
  the \<open>UniqueConstraint\<close> of \<open>Vote\<close>, a \<open>ForeignKey\<close>; and with
  \<open>DataError\<close> when a string is longer than its column (\<open>String(50)\<close>,
  \<open>String(100)\<close>, \<open>String(200)\<close>). A rejected commit changes no table. The
  sequences serve to produce fresh keys only: the model leaves a sequence where it was
  when the insert is rejected, and no statement below depends on it.
\<close>

definition insert_user :: "store \<Rightarrow> string \<Rightarrow> string \<Rightarrow> digest \<Rightarrow> int \<Rightarrow> error + store \<times> user" where
  "insert_user s name mail hashed now =
     (let row = \<lparr>u_id = users_id_seq s, username = name, email = mail,
                  password_hash = hashed, u_created_at = now\<rparr>
      in if length name > 50 \<or> length mail > 100 then Inl DataError
         else if u_id row \<in> set (map u_id (users s))
               \<or> name \<in> set (map username (users s))
               \<or> mail \<in> set (map email (users s)) then Inl IntegrityError
         else Inr (s\<lparr>users := users s @ [row], users_id_seq := users_id_seq s + 1\<rparr>, row))"

definition insert_feature :: "store \<Rightarrow> string \<Rightarrow> string \<Rightarrow> int \<Rightarrow> int \<Rightarrow> error + store \<times> feature" where
  "insert_feature s ttl descr uid now =
     (let row = \<lparr>f_id = features_id_seq s, title = ttl, description = descr,
                  f_user_id = uid, vote_count = 0, status = ''open'', f_created_at = now\<rparr>
      in if length ttl > 200 then Inl DataError
         else if f_id row \<in> set (map f_id (features s))
               \<or> uid \<notin> set (map u_id (users s)) then Inl IntegrityError
         else Inr (s\<lparr>features := features s @ [row],
                     features_id_seq := features_id_seq s + 1\<rparr>, row))"

definition insert_vote :: "store \<Rightarrow> int \<Rightarrow> int \<Rightarrow> int \<Rightarrow> int \<Rightarrow> error + store \<times> vote" where
  "insert_vote s uid fid vtype now =
     (let row = \<lparr>v_id = votes_id_seq s, v_user_id = uid, v_feature_id = fid,
                  vote_type = vtype, v_created_at = now\<rparr>
      in if v_id row \<in> set (map v_id (votes s))
          \<or> uid \<notin> set (map u_id (users s))
          \<or> fid \<notin> set (map f_id (features s))
          \<or> (uid, fid) \<in> set (map (\<lambda>v. (v_user_id v, v_feature_id v)) (votes s))
         then Inl IntegrityError
         else Inr (s\<lparr>votes := votes s @ [row], votes_id_seq := votes_id_seq s + 1\<rparr>, row))"

text \<open>
  \<open>db.delete(row); db.commit()\<close> deletes by primary key. Nothing constrains the
  deletion of a vote; when the row is no longer there the ORM only warns.
\<close>

definition delete_vote :: "store \<Rightarrow> vote \<Rightarrow> store" where
  "delete_vote s row = s\<lparr>votes := filter (\<lambda>v. v_id v \<noteq> v_id row) (votes s)\<rparr>"

text \<open>
  Deleting a feature: \<open>Feature.votes\<close> is a plain \<open>relationship\<close> with no delete
  cascade and \<open>Vote.feature_id\<close> a \<open>ForeignKey\<close> with no \<open>ondelete\<close> and
  \<open>nullable=False\<close>. On flush the ORM sets \<open>feature_id\<close> of the feature's votes
  to NULL, which the NOT NULL constraint rejects (a bare \<open>DELETE\<close> would be rejected
  by the foreign key as well): with a vote on the feature the commit raises
  \<open>IntegrityError\<close>.
\<close>

definition delete_feature_row :: "store \<Rightarrow> feature \<Rightarrow> error + store" where
  "delete_feature_row s row =
     (if f_id row \<in> set (map v_feature_id (votes s)) then Inl IntegrityError
      else Inr (s\<lparr>features := filter (\<lambda>f. f_id f \<noteq> f_id row) (features s)\<rparr>))"

text \<open>
  The constraints the models declare, as a predicate on the store: primary keys,
  the unique columns of \<open>User\<close>, \<open>_user_feature_uc\<close> on \<open>Vote\<close>, the foreign
  keys, and every key below its sequence.
\<close>

definition store_ok :: "store \<Rightarrow> bool" where
  "store_ok s \<longleftrightarrow>
     distinct (map u_id (users s)) \<and> distinct (map username (users s)) \<and>
     distinct (map email (users s)) \<and>
     distinct (map f_id (features s)) \<and> distinct (map v_id (votes s)) \<and>
     distinct (map (\<lambda>v. (v_user_id v, v_feature_id v)) (votes s)) \<and>
     list_all (\<lambda>f. f_user_id f \<in> set (map u_id (users s))) (features s) \<and>
     list_all (\<lambda>v. v_user_id v \<in> set (map u_id (users s))
                 \<and> v_feature_id v \<in> set (map f_id (features s))) (votes s) \<and>
     list_all (\<lambda>u. u_id u < users_id_seq s) (users s) \<and>
     list_all (\<lambda>f. f_id f < features_id_seq s) (features s) \<and>
     list_all (\<lambda>v. v_id v < votes_id_seq s) (votes s)"

subsection \<open>The vote endpoint\<close>

record vote_response =
  message :: string
  voted :: bool

text \<open>
  \<open>vote_feature\<close> reads twice and then commits once. The reads are
  \<open>vote_feature_query\<close>: the 404 when the feature is absent, otherwise the existing
  vote of the user on the feature, if any. The commit is \<open>vote_feature_commit\<close>:
  delete the vote that was found, or insert a new one. An exception of the commit is not
  caught.
\<close>

definition vote_feature_query :: "store \<Rightarrow> int \<Rightarrow> user \<Rightarrow> error + vote option" where
  "vote_feature_query s feature_id current_user =
     (case find (\<lambda>f. f_id f = feature_id) (features s) of
        None \<Rightarrow> Inl (HTTPException 404 ''Feature not found'')
      | Some feature \<Rightarrow>
          Inr (find (\<lambda>v. v_user_id v = u_id current_user \<and> v_feature_id v = feature_id)
                 (votes s)))"

definition vote_feature_commit ::
  "store \<Rightarrow> int \<Rightarrow> int \<Rightarrow> user \<Rightarrow> vote option \<Rightarrow> store \<times> (error + vote_response)" where
  "vote_feature_commit s now feature_id current_user existing_vote =
     (case existing_vote of
        Some v \<Rightarrow>
          (delete_vote s v, Inr \<lparr>message = ''Vote removed'', voted = False\<rparr>)
      | None \<Rightarrow>
          (case insert_vote s (u_id current_user) feature_id 1 now of
             Inl e \<Rightarrow> (s, Inl e)
           | Inr (s', v) \<Rightarrow> (s', Inr \<lparr>message = ''Vote added'', voted = True\<rparr>)))"

definition vote_feature :: "store \<Rightarrow> int \<Rightarrow> int \<Rightarrow> user \<Rightarrow> store \<times> (error + vote_response)" where
  "vote_feature s now feature_id current_user =
     (case vote_feature_query s feature_id current_user of
        Inl e \<Rightarrow> (s, Inl e)
      | Inr existing_vote \<Rightarrow> vote_feature_commit s now feature_id current_user existing_vote)"

text \<open>
  The ledger's two readings of the \<open>votes\<close> table: whether the user has a vote on
  the feature (the query \<open>get_features\<close> and \<open>vote_feature\<close> both make), and the
  rows that reference a feature.
\<close>

definition has_voted :: "store \<Rightarrow> int \<Rightarrow> int \<Rightarrow> bool" where
  "has_voted s uid fid \<longleftrightarrow>
     find (\<lambda>v. v_user_id v = uid \<and> v_feature_id v = fid) (votes s) \<noteq> None"

definition vote_rows :: "store \<Rightarrow> int \<Rightarrow> vote list" where
  "vote_rows s fid = filter (\<lambda>v. v_feature_id v = fid) (votes s)"

subsection \<open>Passwords\<close>

text \<open>
  \<open>pwd_context = CryptContext(schemes=["bcrypt"])\<close>. \<open>pwd_context.hash\<close> draws a
  fresh salt, which the model takes as an argument. \<open>pwd_context.verify\<close> first
  identifies the scheme of the digest, for bcrypt by its prefix, and raises
  \<open>UnknownHashError\<close> when no scheme of the context matches; a string with a bcrypt
  prefix that is not a bcrypt digest makes the handler raise a \<open>ValueError\<close>
  (\<open>MalformedHashError\<close>). Neither function of the program catches anything.
  A digest \<open>Other h\<close> stands for a string \<open>h\<close> that bcrypt did not produce.
  Plaintexts that bcrypt itself refuses or truncates (a NUL byte, more than 72 bytes) are
  beyond the ideal hash and not modelled.
\<close>

definition bcrypt_ident_values :: "string list" where
  "bcrypt_ident_values = [''$2$'', ''$2a$'', ''$2x$'', ''$2y$'', ''$2b$'']"

definition bcrypt_identify :: "string \<Rightarrow> bool" where
  "bcrypt_identify h = list_ex (\<lambda>p. take (length p) h = p) bcrypt_ident_values"

definition verify_password :: "string \<Rightarrow> digest \<Rightarrow> error + bool" where
  "verify_password plain_password hashed_password =
     (case hashed_password of
        Bcrypt salt secret \<Rightarrow> Inr (plain_password = secret)
      | Other h \<Rightarrow> if bcrypt_identify h then Inl MalformedHashError else Inl UnknownHashError)"

definition get_password_hash :: "string \<Rightarrow> string \<Rightarrow> digest" where
  "get_password_hash salt password = Bcrypt salt password"

definition authenticate_user :: "store \<Rightarrow> string \<Rightarrow> string \<Rightarrow> error + user option" where
  "authenticate_user s name password =
     (case find (\<lambda>u. username u = name) (users s) of
        None \<Rightarrow> Inr None
      | Some user \<Rightarrow>
          (case verify_password password (password_hash user) of
             Inl e \<Rightarrow> Inl e
           | Inr matches \<Rightarrow> if matches then Inr (Some user) else Inr None))"

subsection \<open>Registration\<close>

record user_create =
  uc_username :: string
  uc_email :: string
  uc_password :: string

definition register :: "store \<Rightarrow> int \<Rightarrow> string \<Rightarrow> user_create \<Rightarrow> store \<times> (error + user)" where
  "register s now salt user =
     (case find (\<lambda>u. username u = uc_username user \<or> email u = uc_email user) (users s) of
        Some db_user \<Rightarrow> (s, Inl (HTTPException 400 ''Username or email already registered''))
      | None \<Rightarrow>
          (case insert_user s (uc_username user) (uc_email user)
                  (get_password_hash salt (uc_password user)) now of
             Inl e \<Rightarrow> (s, Inl e)
           | Inr (s', db_user) \<Rightarrow> (s', Inr db_user)))"

subsection \<open>Tokens\<close>

text \<open>
  A token is a string. The model keeps what \<open>jwt.decode\<close> reads from it: either
  the string is no compact JWS at all, or it splits into the header's algorithm, the
  payload (a JSON object, here the list of its members) and the signature. The
  HMAC-SHA256 of header and payload under a key is symbolic (an ideal MAC: the tag
  verifies only for the key, header and payload it was computed from); any other
  signature bytes are \<open>Forged\<close>.
\<close>

datatype json = JString string | JNumber int | JNull

type_synonym claims = "(string \<times> json) list"

datatype signature = HMAC_SHA256 string string claims | Forged string

datatype token = JWS string claims signature | Unparseable string

datatype jwt_error = JWTError | ExpiredSignatureError | JWTClaimsError

definition ALGORITHM :: string where
  "ALGORITHM = ''HS256''"

definition ACCESS_TOKEN_EXPIRE_MINUTES :: int where
  "ACCESS_TOKEN_EXPIRE_MINUTES = 30"

fun dict_update :: "string \<Rightarrow> json \<Rightarrow> claims \<Rightarrow> claims" where
  "dict_update k v [] = [(k, v)]"
| "dict_update k v (p # ps) = (if fst p = k then (k, v) # ps else p # dict_update k v ps)"

definition jwt_encode :: "claims \<Rightarrow> string \<Rightarrow> string \<Rightarrow> token" where
  "jwt_encode payload key alg = JWS alg payload (HMAC_SHA256 key alg payload)"

text \<open>
  \<open>jwt.decode\<close> checks the algorithm and the signature, then the registered claims
  that are present: \<open>exp\<close> must be a number not before now, \<open>sub\<close> a string.
  Every failure is a \<open>JWTError\<close> or one of its two subclasses. The other
  registered claims (\<open>nbf\<close>, \<open>iat\<close>, \<open>aud\<close>, \<open>iss\<close>, \<open>jti\<close>) are
  never put into a token by this program and their checks are left out; each of them
  could only add a \<open>JWTError\<close>.
\<close>

definition validate_exp :: "claims \<Rightarrow> int \<Rightarrow> jwt_error + unit" where
  "validate_exp payload now =
     (case map_of payload ''exp'' of
        None \<Rightarrow> Inr ()
      | Some (JNumber exp) \<Rightarrow> if exp < now then Inl ExpiredSignatureError else Inr ()
      | Some _ \<Rightarrow> Inl JWTClaimsError)"

definition validate_sub :: "claims \<Rightarrow> jwt_error + unit" where
  "validate_sub payload =
     (case map_of payload ''sub'' of
        None \<Rightarrow> Inr ()
      | Some (JString sub) \<Rightarrow> Inr ()
      | Some _ \<Rightarrow> Inl JWTClaimsError)"

definition jwt_decode :: "token \<Rightarrow> string \<Rightarrow> string list \<Rightarrow> int \<Rightarrow> jwt_error + claims" where
  "jwt_decode tok key algorithms now =
     (case tok of
        Unparseable raw \<Rightarrow> Inl JWTError
      | JWS alg payload sig \<Rightarrow>
          if alg \<notin> set algorithms then Inl JWTError
          else if sig \<noteq> HMAC_SHA256 key alg payload then Inl JWTError
          else (case validate_exp payload now of
                  Inl e \<Rightarrow> Inl e
                | Inr _ \<Rightarrow>
                    (case validate_sub payload of
                       Inl e \<Rightarrow> Inl e
                     | Inr _ \<Rightarrow> Inr payload)))"

text \<open>
  \<open>SECRET_KEY\<close> is read from the environment once; the functions that use it take it
  as their first argument. \<open>expires_delta\<close> is a number of seconds; Python takes a
  zero \<open>timedelta\<close> for false, as it does \<open>None\<close>.
\<close>

definition create_access_token :: "string \<Rightarrow> claims \<Rightarrow> int option \<Rightarrow> int \<Rightarrow> token" where
  "create_access_token secret_key data expires_delta now =
     (let expire = (case expires_delta of
                      Some delta \<Rightarrow> if delta \<noteq> 0 then now + delta else now + 15 * 60
                    | None \<Rightarrow> now + 15 * 60);
          to_encode = dict_update ''exp'' (JNumber expire) data
      in jwt_encode to_encode secret_key ALGORITHM)"

definition credentials_exception :: error where
  "credentials_exception = HTTPException 401 ''Could not validate credentials''"

text \<open>
  \<open>get_current_user\<close>: the \<open>except JWTError\<close> turns every failure of
  \<open>jwt.decode\<close> into the 401, as does a missing \<open>sub\<close> and a subject that is no
  user's name. A \<open>sub\<close> that is not a string would fail in \<open>TokenData\<close> with a
  validation error that is not caught.
\<close>

definition get_current_user :: "string \<Rightarrow> store \<Rightarrow> int \<Rightarrow> token \<Rightarrow> error + user" where
  "get_current_user secret_key s now tok =
     (case jwt_decode tok secret_key [ALGORITHM] now of
        Inl e \<Rightarrow> Inl credentials_exception
      | Inr payload \<Rightarrow>
          (case map_of payload ''sub'' of
             None \<Rightarrow> Inl credentials_exception
           | Some JNull \<Rightarrow> Inl credentials_exception
           | Some (JNumber n) \<Rightarrow> Inl ValidationError
           | Some (JString name) \<Rightarrow>
               (case find (\<lambda>u. username u = name) (users s) of
                  None \<Rightarrow> Inl credentials_exception
                | Some user \<Rightarrow> Inr user)))"

definition login :: "string \<Rightarrow> store \<Rightarrow> int \<Rightarrow> string \<Rightarrow> string \<Rightarrow> error + token" where
  "login secret_key s now name password =
     (case authenticate_user s name password of
        Inl e \<Rightarrow> Inl e
      | Inr None \<Rightarrow> Inl (HTTPException 401 ''Incorrect username or password'')
      | Inr (Some user) \<Rightarrow>
          Inr (create_access_token secret_key [(''sub'', JString (username user))]
                 (Some (ACCESS_TOKEN_EXPIRE_MINUTES * 60)) now))"

subsection \<open>Features\<close>

record feature_create =
  fc_title :: string
  fc_description :: string

record feature_response =
  r_id :: int
  r_title :: string
  r_description :: string
  r_user_id :: int
  r_username :: string
  r_vote_count :: int
  r_status :: string
  r_created_at :: int
  r_user_voted :: bool

definition create_feature ::
  "store \<Rightarrow> int \<Rightarrow> feature_create \<Rightarrow> user \<Rightarrow> store \<times> (error + feature_response)" where
  "create_feature s now feature current_user =
     (case insert_feature s (fc_title feature) (fc_description feature) (u_id current_user) now of
        Inl e \<Rightarrow> (s, Inl e)
      | Inr (s', db_feature) \<Rightarrow>
          (s', Inr \<lparr>r_id = f_id db_feature, r_title = title db_feature,
                    r_description = description db_feature, r_user_id = f_user_id db_feature,
                    r_username = username current_user, r_vote_count = vote_count db_feature,
                    r_status = status db_feature, r_created_at = f_created_at db_feature,
                    r_user_voted = False\<rparr>))"

text \<open>
  \<open>ORDER BY column DESC\<close>: SQL leaves the order of rows with equal keys open. The
  model sorts stably, so that rows with equal keys stay in the table's scan order, which
  is part of the store and can be any order. \<open>OFFSET\<close> and \<open>LIMIT\<close> are applied to
  the sorted rows; PostgreSQL rejects a negative one.
\<close>

definition order_by_desc :: "('a \<Rightarrow> int) \<Rightarrow> 'a list \<Rightarrow> 'a list" where
  "order_by_desc column rows = sort_key (\<lambda>r. - column r) rows"

definition offset_limit :: "int \<Rightarrow> int \<Rightarrow> 'a list \<Rightarrow> error + 'a list" where
  "offset_limit skip limit rows =
     (if skip < 0 \<or> limit < 0 then Inl DataError
      else Inr (take (nat limit) (drop (nat skip) rows)))"

text \<open>
  The loop that formats the response. \<open>feature.user\<close> loads the owner by the foreign
  key; were there none, \<open>.username\<close> would raise on \<open>None\<close>.
\<close>

fun format_features :: "store \<Rightarrow> user option \<Rightarrow> feature list \<Rightarrow> error + feature_response list" where
  "format_features s current_user [] = Inr []"
| "format_features s current_user (feature # rest) =
     (let user_voted =
            (case current_user of
               None \<Rightarrow> False
             | Some u \<Rightarrow>
                 find (\<lambda>v. v_user_id v = u_id u \<and> v_feature_id v = f_id feature) (votes s)
                   \<noteq> None)
      in case find (\<lambda>u. u_id u = f_user_id feature) (users s) of
           None \<Rightarrow> Inl AttributeError
         | Some owner \<Rightarrow>
             (case format_features s current_user rest of
                Inl e \<Rightarrow> Inl e
              | Inr response \<Rightarrow>
                  Inr (\<lparr>r_id = f_id feature, r_title = title feature,
                        r_description = description feature, r_user_id = f_user_id feature,
                        r_username = username owner, r_vote_count = vote_count feature,
                        r_status = status feature, r_created_at = f_created_at feature,
                        r_user_voted = user_voted\<rparr> # response)))"

text \<open>
  \<open>get_features\<close>. Its \<open>try\<close> block reads \<open>oauth2_scheme._auto_error\<close>, an
  attribute that \<open>OAuth2PasswordBearer\<close> does not have (it is \<open>auto_error\<close>), so the
  bare \<open>except\<close> always sets \<open>current_user = None\<close>.
\<close>

definition get_features :: "store \<Rightarrow> int \<Rightarrow> int \<Rightarrow> string \<Rightarrow> error + feature_response list" where
  "get_features s skip limit sort_by =
     (let current_user = None;
          query = (if sort_by = ''votes'' then order_by_desc vote_count (features s)
                   else order_by_desc f_created_at (features s))
      in case offset_limit skip limit query of
           Inl e \<Rightarrow> Inl e
         | Inr features' \<Rightarrow> format_features s current_user features')"

definition delete_feature :: "store \<Rightarrow> int \<Rightarrow> user \<Rightarrow> store \<times> (error + string)" where
  "delete_feature s feature_id current_user =
     (case find (\<lambda>f. f_id f = feature_id \<and> f_user_id f = u_id current_user) (features s) of
        None \<Rightarrow>
          (s, Inl (HTTPException 404 ''Feature not found or you don't have permission''))
      | Some feature \<Rightarrow>
          (case delete_feature_row s feature of
             Inl e \<Rightarrow> (s, Inl e)
           | Inr s' \<Rightarrow> (s', Inr ''Feature deleted successfully'')))"

text \<open>The row that \<open>vote_feature\<close> adds.\<close>

definition new_vote :: "store \<Rightarrow> int \<Rightarrow> int \<Rightarrow> int \<Rightarrow> vote" where
  "new_vote s uid fid now = \<lparr>v_id = votes_id_seq s, v_user_id = uid, v_feature_id = fid,
     vote_type = 1, v_created_at = now\<rparr>"

text \<open>
  The store without the vote of a user on a feature: what \<open>vote_feature\<close> leaves
  when it deletes the vote it found.
\<close>

definition unvote :: "store \<Rightarrow> int \<Rightarrow> int \<Rightarrow> store" where
  "unvote s uid fid =
     s\<lparr>votes := filter (\<lambda>v. \<not> (v_user_id v = uid \<and> v_feature_id v = fid)) (votes s)\<rparr>"

subsection \<open>Reachable stores\<close>

text \<open>
  The stores the system can be in: the empty one, and what a request that writes makes
  of a reachable store. The requests that need a login are made by a user of the store,
  which is what \<open>get_current_user\<close> returns.
\<close>

inductive reachable :: "store \<Rightarrow> bool" where
  start: "reachable empty_store"
| by_register: "reachable s \<Longrightarrow> reachable (fst (register s now salt user))"
| by_create_feature:
    "reachable s \<Longrightarrow> current_user \<in> set (users s) \<Longrightarrow>
       reachable (fst (create_feature s now feature current_user))"
| by_vote_feature:
    "reachable s \<Longrightarrow> current_user \<in> set (users s) \<Longrightarrow>
       reachable (fst (vote_feature s now feature_id current_user))"
| by_delete_feature:
    "reachable s \<Longrightarrow> current_user \<in> set (users s) \<Longrightarrow>
       reachable (fst (delete_feature s feature_id current_user))"

subsection \<open>A small run of the system\<close>

text \<open>
  Stores reached by the endpoints from the empty store, used to run the theorems below
  on concrete requests: alice and bob register, alice creates two features, bob votes
  for the second.
\<close>

definition alice :: user where
  "alice = \<lparr>u_id = 1, username = ''alice'', email = ''alice@example.org'',
     password_hash = Bcrypt ''salt-a'' ''wonderland'', u_created_at = 100\<rparr>"

definition bob :: user where
  "bob = \<lparr>u_id = 2, username = ''bob'', email = ''bob@example.org'',
     password_hash = Bcrypt ''salt-b'' ''builder'', u_created_at = 110\<rparr>"

definition demo_users :: store where
  "demo_users =
     fst (register
       (fst (register empty_store 100 ''salt-a''
          \<lparr>uc_username = ''alice'', uc_email = ''alice@example.org'',
           uc_password = ''wonderland''\<rparr>))
       110 ''salt-b''
       \<lparr>uc_username = ''bob'', uc_email = ''bob@example.org'', uc_password = ''builder''\<rparr>)"

definition demo_features :: store where
  "demo_features =
     fst (create_feature
       (fst (create_feature demo_users 200
          \<lparr>fc_title = ''Dark mode'', fc_description = ''A dark theme''\<rparr> alice))
       210 \<lparr>fc_title = ''Export'', fc_description = ''Export as CSV''\<rparr> alice)"

definition demo_voted :: store where
  "demo_voted = fst (vote_feature demo_features 300 2 bob)"


section \<open>Properties\<close>

subsection \<open>Queries and writes\<close>

lemma find_eq_None: "find P xs = None \<longleftrightarrow> (\<forall>x\<in>set xs. \<not> P x)"
  by (induction xs) auto

lemma find_SomeD: "find P xs = Some x \<Longrightarrow> x \<in> set xs \<and> P x"
  by (induction xs) (auto split: if_splits)

lemma has_voted_iff:
  "has_voted s uid fid \<longleftrightarrow> (uid, fid) \<in> set (map (\<lambda>v. (v_user_id v, v_feature_id v)) (votes s))"
  unfolding has_voted_def find_eq_None by auto

lemma feature_exists_iff:
  "find (\<lambda>f. f_id f = fid) (features s) \<noteq> None \<longleftrightarrow> fid \<in> set (map f_id (features s))"
  unfolding find_eq_None by auto

lemma fresh_vote_id:
  "store_ok s \<Longrightarrow> votes_id_seq s \<notin> set (map v_id (votes s))"
  unfolding store_ok_def list_all_iff by auto

lemma filter_key_remove1:
  "distinct (map f vs) \<Longrightarrow> v \<in> set vs \<Longrightarrow> filter (\<lambda>w. f w \<noteq> f v) vs = remove1 v vs"
proof (induction vs)
  case Nil
  then show ?case by simp
next
  case (Cons a vs)
  from Cons.prems(1) have fresh: "f a \<notin> f ` set vs" and d: "distinct (map f vs)" by simp_all
  show ?case
  proof (cases "a = v")
    case True
    from fresh have "\<forall>w\<in>set vs. f w \<noteq> f a" by (metis imageI)
    then have "filter (\<lambda>w. f w \<noteq> f a) vs = vs"
      by (simp add: filter_id_conv)
    with True show ?thesis by simp
  next
    case False
    with Cons.prems(2) have v: "v \<in> set vs" by simp
    with fresh have "f a \<noteq> f v" by (metis imageI)
    then show ?thesis using Cons.IH [OF d v] False by simp
  qed
qed

lemma insert_vote_ok:
  assumes ok: "store_ok s"
    and usr: "uid \<in> set (map u_id (users s))"
    and ftr: "fid \<in> set (map f_id (features s))"
    and nov: "\<not> has_voted s uid fid"
  shows "insert_vote s uid fid 1 now =
     Inr (s\<lparr>votes := votes s @ [new_vote s uid fid now], votes_id_seq := votes_id_seq s + 1\<rparr>,
          new_vote s uid fid now)"
proof -
  from nov have "(uid, fid) \<notin> set (map (\<lambda>v. (v_user_id v, v_feature_id v)) (votes s))"
    by (simp add: has_voted_iff)
  then show ?thesis
    using usr ftr fresh_vote_id [OF ok] unfolding insert_vote_def new_vote_def Let_def by simp
qed

lemma insert_vote_duplicate:
  "has_voted s uid fid \<Longrightarrow> insert_vote s uid fid vtype now = Inl IntegrityError"
  unfolding insert_vote_def Let_def by (simp add: has_voted_iff)

lemma vote_feature_query_found:
  assumes "fid \<in> set (map f_id (features s))"
  shows "vote_feature_query s fid current_user =
     Inr (find (\<lambda>v. v_user_id v = u_id current_user \<and> v_feature_id v = fid) (votes s))"
proof -
  from assms obtain f where "find (\<lambda>f. f_id f = fid) (features s) = Some f"
    using feature_exists_iff [of fid s] by auto
  then show ?thesis by (simp add: vote_feature_query_def)
qed

lemma vote_feature_add:
  assumes ok: "store_ok s"
    and usr: "u_id current_user \<in> set (map u_id (users s))"
    and ftr: "feature_id \<in> set (map f_id (features s))"
    and nov: "\<not> has_voted s (u_id current_user) feature_id"
  shows "vote_feature s now feature_id current_user =
           (s\<lparr>votes := votes s @ [new_vote s (u_id current_user) feature_id now],
               votes_id_seq := votes_id_seq s + 1\<rparr>,
            Inr \<lparr>message = ''Vote added'', voted = True\<rparr>)"
proof -
  from nov have q: "find (\<lambda>v. v_user_id v = u_id current_user \<and> v_feature_id v = feature_id)
      (votes s) = None"
    by (simp add: has_voted_def)
  show ?thesis
    unfolding vote_feature_def vote_feature_query_found [OF ftr] q
    by (simp add: vote_feature_commit_def insert_vote_ok [OF ok usr ftr nov])
qed

lemma vote_feature_remove:
  assumes ok: "store_ok s"
    and ftr: "feature_id \<in> set (map f_id (features s))"
    and ex: "find (\<lambda>v. v_user_id v = u_id current_user \<and> v_feature_id v = feature_id)
      (votes s) = Some v"
  shows "vote_feature s now feature_id current_user =
           (s\<lparr>votes := remove1 v (votes s)\<rparr>,
            Inr \<lparr>message = ''Vote removed'', voted = False\<rparr>)"
proof -
  from find_SomeD [OF ex] have v: "v \<in> set (votes s)" by simp
  from ok have d: "distinct (map v_id (votes s))" by (simp add: store_ok_def)
  from v have "v_id v \<in> set (map v_id (votes s))" by simp
  have "delete_vote s v = s\<lparr>votes := remove1 v (votes s)\<rparr>"
    unfolding delete_vote_def using filter_key_remove1 [OF d v] by simp
  then show ?thesis
    unfolding vote_feature_def vote_feature_query_found [OF ftr] ex
    by (simp add: vote_feature_commit_def)
qed

lemma has_voted_after_add:
  "has_voted (s\<lparr>votes := votes s @ [new_vote s uid fid now], votes_id_seq := n\<rparr>) uid fid"
  by (simp add: has_voted_iff new_vote_def)

lemma has_voted_after_remove:
  assumes ok: "store_ok s"
    and ex: "find (\<lambda>v. v_user_id v = uid \<and> v_feature_id v = fid) (votes s) = Some v"
  shows "\<not> has_voted (s\<lparr>votes := remove1 v (votes s)\<rparr>) uid fid"
proof -
  from find_SomeD [OF ex] have v: "v \<in> set (votes s)" "v_user_id v = uid" "v_feature_id v = fid"
    by simp_all
  let ?k = "\<lambda>v. (v_user_id v, v_feature_id v)"
  from ok have d: "distinct (map ?k (votes s))" by (simp add: store_ok_def)
  from v(1) obtain xs ys where split: "votes s = xs @ v # ys" "v \<notin> set xs"
    by (meson split_list_first)
  then have r: "remove1 v (votes s) = xs @ ys" by (simp add: remove1_append)
  from d split have "?k v \<notin> set (map ?k (xs @ ys))" by auto
  with r v show ?thesis by (simp add: has_voted_iff)
qed

lemma distinct_map_remove1: "distinct (map f xs) \<Longrightarrow> distinct (map f (remove1 x xs))"
proof (induction xs)
  case Nil
  then show ?case by simp
next
  case (Cons a xs)
  have "f ` set (remove1 x xs) \<subseteq> f ` set xs"
    using set_remove1_subset [of x xs] by blast
  with Cons show ?case by auto
qed

lemma list_all_remove1: "list_all P xs \<Longrightarrow> list_all P (remove1 x xs)"
  using set_remove1_subset [of x xs] by (auto simp: list_all_iff)

lemma store_ok_remove_vote:
  assumes "store_ok s"
  shows "store_ok (s\<lparr>votes := remove1 v (votes s)\<rparr>)"
  using assms unfolding store_ok_def
  by (simp add: distinct_map_remove1 list_all_remove1)

lemma store_ok_add_vote:
  assumes ok: "store_ok s"
    and usr: "uid \<in> set (map u_id (users s))"
    and ftr: "fid \<in> set (map f_id (features s))"
    and nov: "\<not> has_voted s uid fid"
  shows "store_ok (s\<lparr>votes := votes s @ [new_vote s uid fid now],
                     votes_id_seq := votes_id_seq s + 1\<rparr>)"
proof -
  from nov have pair: "(uid, fid) \<notin> (\<lambda>v. (v_user_id v, v_feature_id v)) ` set (votes s)"
    by (simp add: has_voted_iff)
  from ok have below: "list_all (\<lambda>v. v_id v < votes_id_seq s) (votes s)"
    by (simp add: store_ok_def)
  then have "list_all (\<lambda>v. v_id v < votes_id_seq s + 1) (votes s)"
    by (auto simp: list_all_iff)
  moreover from below have "votes_id_seq s \<notin> v_id ` set (votes s)"
    by (auto simp: list_all_iff)
  ultimately show ?thesis
    using ok usr ftr pair unfolding store_ok_def new_vote_def by simp
qed

lemma length_remove1_Suc: "v \<in> set vs \<Longrightarrow> length (remove1 v vs) + 1 = length vs"
  by (induction vs) auto

lemma remove1_unvote:
  assumes ok: "store_ok s"
    and ex: "find (\<lambda>v. v_user_id v = uid \<and> v_feature_id v = fid) (votes s) = Some v"
  shows "s\<lparr>votes := remove1 v (votes s)\<rparr> = unvote s uid fid"
proof -
  from find_SomeD [OF ex] have v: "v \<in> set (votes s)" "v_user_id v = uid" "v_feature_id v = fid"
    by simp_all
  from ok have d: "distinct (map (\<lambda>v. (v_user_id v, v_feature_id v)) (votes s))"
    by (simp add: store_ok_def)
  from filter_key_remove1 [OF d v(1)] v(2,3) show ?thesis
    by (simp add: unvote_def)
qed

lemma vote_feature_unvote:
  assumes ok: "store_ok s"
    and ftr: "feature_id \<in> set (map f_id (features s))"
    and voted: "has_voted s (u_id current_user) feature_id"
  shows "vote_feature s now feature_id current_user =
           (unvote s (u_id current_user) feature_id,
            Inr \<lparr>message = ''Vote removed'', voted = False\<rparr>)"
    and "\<not> has_voted (unvote s (u_id current_user) feature_id) (u_id current_user) feature_id"
    and "length (votes (unvote s (u_id current_user) feature_id)) + 1 = length (votes s)"
    and "store_ok (unvote s (u_id current_user) feature_id)"
proof -
  from voted obtain v where ex:
    "find (\<lambda>v. v_user_id v = u_id current_user \<and> v_feature_id v = feature_id) (votes s) = Some v"
    by (auto simp: has_voted_def)
  note eq = remove1_unvote [OF ok ex]
  from vote_feature_remove [OF ok ftr ex] eq
  show "vote_feature s now feature_id current_user =
           (unvote s (u_id current_user) feature_id,
            Inr \<lparr>message = ''Vote removed'', voted = False\<rparr>)" by simp
  from has_voted_after_remove [OF ok ex] eq
  show "\<not> has_voted (unvote s (u_id current_user) feature_id) (u_id current_user) feature_id"
    by simp
  from find_SomeD [OF ex] have "v \<in> set (votes s)" by simp
  moreover have "votes (unvote s (u_id current_user) feature_id) = remove1 v (votes s)"
    unfolding eq [symmetric] by simp
  ultimately
  show "length (votes (unvote s (u_id current_user) feature_id)) + 1 = length (votes s)"
    using length_remove1_Suc [of v "votes s"] by simp
  from store_ok_remove_vote [OF ok, of v] eq
  show "store_ok (unvote s (u_id current_user) feature_id)" by simp
qed

subsection \<open>The constraints hold in every reachable store\<close>

lemma store_ok_empty: "store_ok empty_store"
  by (simp add: store_ok_def empty_store_def)

lemma list_all_below_Suc:
  "list_all (\<lambda>x. key x < (n::int)) xs \<Longrightarrow> list_all (\<lambda>x. key x < n + 1) xs"
  by (auto simp: list_all_iff)

lemma below_fresh: "list_all (\<lambda>x. key x < (n::int)) xs \<Longrightarrow> n \<notin> key ` set xs"
  by (auto simp: list_all_iff)

lemma store_ok_insert_user:
  assumes ok: "store_ok s" and ins: "insert_user s name mail hashed now = Inr (s', row)"
  shows "store_ok s'"
proof -
  from ins have fresh: "name \<notin> username ` set (users s)" "mail \<notin> email ` set (users s)"
    and s': "s' = s\<lparr>users := users s @ [\<lparr>u_id = users_id_seq s, username = name, email = mail,
                  password_hash = hashed, u_created_at = now\<rparr>],
                users_id_seq := users_id_seq s + 1\<rparr>"
    by (auto simp: insert_user_def Let_def split: if_splits)
  from ok have below: "list_all (\<lambda>u. u_id u < users_id_seq s) (users s)"
    by (simp add: store_ok_def)
  from ok have fk: "list_all (\<lambda>f. f_user_id f \<in> set (map u_id (users s))) (features s)"
    "list_all (\<lambda>v. v_user_id v \<in> set (map u_id (users s))
                 \<and> v_feature_id v \<in> set (map f_id (features s))) (votes s)"
    by (simp_all add: store_ok_def)
  from fk have fk': "list_all (\<lambda>f. f_user_id f = users_id_seq s \<or> f_user_id f \<in> u_id ` set (users s))
      (features s)"
    "list_all (\<lambda>v. (v_user_id v = users_id_seq s \<or> v_user_id v \<in> u_id ` set (users s))
                 \<and> v_feature_id v \<in> f_id ` set (features s)) (votes s)"
    by (auto simp: list_all_iff)
  show ?thesis
    unfolding s' using ok fresh below_fresh [OF below] list_all_below_Suc [OF below] fk'
    by (simp add: store_ok_def)
qed

lemma store_ok_register: "store_ok s \<Longrightarrow> store_ok (fst (register s now salt user))"
  by (auto simp: register_def split: option.splits sum.splits dest: store_ok_insert_user)

lemma store_ok_insert_feature:
  assumes ok: "store_ok s" and ins: "insert_feature s ttl descr uid now = Inr (s', row)"
  shows "store_ok s'"
proof -
  from ins have usr: "uid \<in> u_id ` set (users s)"
    and s': "s' = s\<lparr>features := features s @ [\<lparr>f_id = features_id_seq s, title = ttl,
                  description = descr, f_user_id = uid, vote_count = 0, status = ''open'',
                  f_created_at = now\<rparr>],
                features_id_seq := features_id_seq s + 1\<rparr>"
    by (auto simp: insert_feature_def Let_def split: if_splits)
  from ok have below: "list_all (\<lambda>f. f_id f < features_id_seq s) (features s)"
    by (simp add: store_ok_def)
  from ok have "list_all (\<lambda>v. v_user_id v \<in> set (map u_id (users s))
                 \<and> v_feature_id v \<in> set (map f_id (features s))) (votes s)"
    by (simp add: store_ok_def)
  then have fk: "list_all (\<lambda>v. v_user_id v \<in> u_id ` set (users s)
      \<and> (v_feature_id v = features_id_seq s \<or> v_feature_id v \<in> f_id ` set (features s)))
      (votes s)"
    by (auto simp: list_all_iff)
  show ?thesis
    unfolding s' using ok usr below_fresh [OF below] list_all_below_Suc [OF below] fk
    by (simp add: store_ok_def)
qed

lemma store_ok_create_feature:
  "store_ok s \<Longrightarrow> store_ok (fst (create_feature s now feature current_user))"
  by (auto simp: create_feature_def split: sum.splits dest: store_ok_insert_feature)

lemma store_ok_insert_vote:
  assumes ok: "store_ok s" and ins: "insert_vote s uid fid 1 now = Inr (s', row)"
  shows "store_ok s'"
proof -
  from ins have usr: "uid \<in> set (map u_id (users s))"
    and ftr: "fid \<in> set (map f_id (features s))"
    and nov: "\<not> has_voted s uid fid"
    and s': "s' = s\<lparr>votes := votes s @ [new_vote s uid fid now],
                votes_id_seq := votes_id_seq s + 1\<rparr>"
    by (auto simp: insert_vote_def new_vote_def has_voted_iff Let_def split: if_splits)
  show ?thesis unfolding s' by (rule store_ok_add_vote [OF ok usr ftr nov])
qed

lemma store_ok_delete_vote: "store_ok s \<Longrightarrow> store_ok (delete_vote s v)"
  unfolding store_ok_def delete_vote_def
  by (auto simp: distinct_map_filter list_all_iff)

lemma store_ok_vote_feature:
  "store_ok s \<Longrightarrow> store_ok (fst (vote_feature s now feature_id current_user))"
  by (auto simp: vote_feature_def vote_feature_commit_def store_ok_delete_vote
      split: sum.splits option.splits dest: store_ok_insert_vote)

lemma store_ok_delete_feature_row:
  assumes ok: "store_ok s" and del: "delete_feature_row s row = Inr s'"
  shows "store_ok s'"
proof -
  from del have unref: "f_id row \<notin> v_feature_id ` set (votes s)"
    and s': "s' = s\<lparr>features := filter (\<lambda>f. f_id f \<noteq> f_id row) (features s)\<rparr>"
    by (auto simp: delete_feature_row_def split: if_splits)
  from ok have "list_all (\<lambda>v. v_user_id v \<in> set (map u_id (users s))
                 \<and> v_feature_id v \<in> set (map f_id (features s))) (votes s)"
    by (simp add: store_ok_def)
  then have refs: "\<forall>v\<in>set (votes s). v_user_id v \<in> u_id ` set (users s)
      \<and> v_feature_id v \<in> f_id ` set (features s)"
    by (simp add: list_all_iff)
  have fk: "list_all (\<lambda>v. v_user_id v \<in> u_id ` set (users s)
      \<and> v_feature_id v \<in> f_id ` {f \<in> set (features s). f_id f \<noteq> f_id row}) (votes s)"
    unfolding list_all_iff
  proof (intro ballI conjI)
    fix v assume v: "v \<in> set (votes s)"
    with refs show "v_user_id v \<in> u_id ` set (users s)" by simp
    from refs v obtain f where f: "f \<in> set (features s)" "v_feature_id v = f_id f" by auto
    from unref v have "v_feature_id v \<noteq> f_id row" by (metis imageI)
    with f have "f \<in> {f \<in> set (features s). f_id f \<noteq> f_id row}" by simp
    with f(2) show "v_feature_id v \<in> f_id ` {f \<in> set (features s). f_id f \<noteq> f_id row}"
      by (metis imageI)
  qed
  show ?thesis
    unfolding s' using ok fk
    by (simp add: store_ok_def distinct_map_filter list_all_iff)
qed

lemma store_ok_delete_feature:
  "store_ok s \<Longrightarrow> store_ok (fst (delete_feature s feature_id current_user))"
  by (auto simp: delete_feature_def split: sum.splits option.splits
      dest: store_ok_delete_feature_row)

lemma reachable_store_ok: "reachable s \<Longrightarrow> store_ok s"
  by (induction rule: reachable.induct)
     (simp_all add: store_ok_empty store_ok_register store_ok_create_feature
        store_ok_vote_feature store_ok_delete_feature)

lemma reachable_demo_users: "reachable demo_users"
  unfolding demo_users_def by (intro reachable.by_register reachable.start)


lemma reachable_demo_features: "reachable demo_features"
proof -
  have a: "alice \<in> set (users demo_users)" by code_simp
  have b: "alice \<in> set (users (fst (create_feature demo_users 200
      \<lparr>fc_title = ''Dark mode'', fc_description = ''A dark theme''\<rparr> alice)))" by code_simp
  show ?thesis
    unfolding demo_features_def
    by (intro reachable.by_create_feature reachable_demo_users a b)
qed

lemma reachable_demo_voted: "reachable demo_voted"
proof -
  have "bob \<in> set (users demo_features)" by code_simp
  then show ?thesis
    unfolding demo_voted_def by (intro reachable.by_vote_feature reachable_demo_features)
qed

subsection \<open>Toggling a vote\<close>

text \<open>
  Claim C2. For a user of the store and an existing feature, \<open>vote_feature\<close> has
  exactly two outcomes. If the user has no vote on the feature, it appends one Vote row
  for the pair and answers \<open>voted = True\<close>, and the user then has voted. If the
  user has a vote on the feature, it deletes that row (the table is one row shorter),
  answers \<open>voted = False\<close>, and the user then has not voted.
\<close>

theorem vote_feature_toggles:
  assumes ok: "store_ok s"
    and usr: "u_id current_user \<in> set (map u_id (users s))"
    and ftr: "feature_id \<in> set (map f_id (features s))"
  shows "if has_voted s (u_id current_user) feature_id
         then vote_feature s now feature_id current_user =
                (unvote s (u_id current_user) feature_id,
                 Inr \<lparr>message = ''Vote removed'', voted = False\<rparr>)
              \<and> \<not> has_voted (unvote s (u_id current_user) feature_id)
                     (u_id current_user) feature_id
              \<and> length (votes (unvote s (u_id current_user) feature_id)) + 1
                  = length (votes s)
         else vote_feature s now feature_id current_user =
                (s\<lparr>votes := votes s @ [new_vote s (u_id current_user) feature_id now],
                   votes_id_seq := votes_id_seq s + 1\<rparr>,
                 Inr \<lparr>message = ''Vote added'', voted = True\<rparr>)
              \<and> has_voted
                   (s\<lparr>votes := votes s @ [new_vote s (u_id current_user) feature_id now],
                      votes_id_seq := votes_id_seq s + 1\<rparr>)
                   (u_id current_user) feature_id"
proof (cases "has_voted s (u_id current_user) feature_id")
  case True
  from vote_feature_unvote(1,2,3) [OF ok ftr True] True
  show ?thesis by simp
next
  case False
  from vote_feature_add [OF ok usr ftr False] False has_voted_after_add
  show ?thesis by simp
qed

text \<open>
  The theorem on the run: bob votes for feature 2 and takes the vote back.
\<close>

theorem vote_feature_toggles_witness:
  "vote_feature demo_features 300 2 bob =
     (demo_voted, Inr \<lparr>message = ''Vote added'', voted = True\<rparr>)
   \<and> has_voted demo_voted 2 2
   \<and> vote_feature demo_voted 400 2 bob =
     (demo_features\<lparr>votes_id_seq := 2\<rparr>, Inr \<lparr>message = ''Vote removed'', voted = False\<rparr>)
   \<and> \<not> has_voted (demo_features\<lparr>votes_id_seq := 2\<rparr>) 2 2"
proof -
  have a: "store_ok demo_features" by code_simp
  have b: "u_id bob \<in> set (map u_id (users demo_features))" by code_simp
  have c: "2 \<in> set (map f_id (features demo_features))" by code_simp
  have d: "\<not> has_voted demo_features (u_id bob) 2" by code_simp
  have e: "demo_features\<lparr>votes := votes demo_features @ [new_vote demo_features (u_id bob) 2 300],
                   votes_id_seq := votes_id_seq demo_features + 1\<rparr> = demo_voted" by code_simp
  have a': "store_ok demo_voted" by code_simp
  have b': "u_id bob \<in> set (map u_id (users demo_voted))" by code_simp
  have c': "2 \<in> set (map f_id (features demo_voted))" by code_simp
  have d': "has_voted demo_voted (u_id bob) 2" by code_simp
  have u: "u_id bob = 2" by code_simp
  have f: "unvote demo_voted 2 2 = demo_features\<lparr>votes_id_seq := 2\<rparr>" by code_simp
  note add = vote_feature_toggles [OF a b c, of 300, unfolded if_not_P [OF d] e]
  note del = vote_feature_toggles [OF a' b' c', of 400, unfolded if_P [OF d']]
  from add [unfolded u] del [unfolded u f] show ?thesis by simp
qed

lemma vote_rows_add:
  "vote_rows (s\<lparr>votes := votes s @ [new_vote s uid fid now], votes_id_seq := n\<rparr>) f =
     vote_rows s f @ (if f = fid then [new_vote s uid fid now] else [])"
  by (simp add: vote_rows_def new_vote_def)

lemma unvote_add:
  assumes "\<not> has_voted s uid fid"
  shows "unvote (s\<lparr>votes := votes s @ [new_vote s uid fid now], votes_id_seq := n\<rparr>) uid fid
     = s\<lparr>votes_id_seq := n\<rparr>"
proof -
  from assms have "\<forall>v\<in>set (votes s). \<not> (v_user_id v = uid \<and> v_feature_id v = fid)"
    by (simp add: has_voted_def find_eq_None)
  then have "filter (\<lambda>v. \<not> (v_user_id v = uid \<and> v_feature_id v = fid)) (votes s) = votes s"
    by (simp add: filter_id_conv)
  then show ?thesis by (simp add: unvote_def new_vote_def)
qed

lemma vote_rows_unvote:
  assumes ok: "store_ok s" and voted: "has_voted s uid fid"
  shows "length (vote_rows (unvote s uid fid) fid) + 1 = length (vote_rows s fid)"
proof -
  from voted obtain v where ex:
    "find (\<lambda>v. v_user_id v = uid \<and> v_feature_id v = fid) (votes s) = Some v"
    by (auto simp: has_voted_def)
  from find_SomeD [OF ex] have v: "v \<in> set (votes s)" "v_feature_id v = fid" by simp_all
  have "votes (unvote s uid fid) = remove1 v (votes s)"
    unfolding remove1_unvote [OF ok ex, symmetric] by simp
  then have "vote_rows (unvote s uid fid) fid = remove1 v (vote_rows s fid)"
    using v(2) by (simp add: vote_rows_def filter_remove1)
  moreover from v have "v \<in> set (vote_rows s fid)" by (simp add: vote_rows_def)
  ultimately show ?thesis using length_remove1_Suc [of v "vote_rows s fid"] by simp
qed

lemma unvote_frame:
  "users (unvote s uid fid) = users s" "features (unvote s uid fid) = features s"
  "votes_id_seq (unvote s uid fid) = votes_id_seq s"
  by (simp_all add: unvote_def)

text \<open>
  Claim C4. For a user of the store and an existing feature, two calls of
  \<open>vote_feature\<close> in a row leave the number of Vote rows of the feature, and
  whether the user has voted, as they were before the two calls. Starting without a
  vote, the first call answers \<open>voted = True\<close>, the second \<open>voted = False\<close>,
  the user has then not voted, and the \<open>votes\<close> table is the one before the calls.
\<close>

theorem double_toggle:
  assumes ok: "store_ok s"
    and usr: "u_id current_user \<in> set (map u_id (users s))"
    and ftr: "feature_id \<in> set (map f_id (features s))"
  shows "(case vote_feature s now feature_id current_user of
            (s1, r1) \<Rightarrow>
              (case vote_feature s1 later feature_id current_user of
                 (s2, r2) \<Rightarrow>
                   length (vote_rows s2 feature_id) = length (vote_rows s feature_id)
                   \<and> has_voted s2 (u_id current_user) feature_id
                       = has_voted s (u_id current_user) feature_id
                   \<and> (\<not> has_voted s (u_id current_user) feature_id \<longrightarrow>
                         r1 = Inr \<lparr>message = ''Vote added'', voted = True\<rparr>
                       \<and> r2 = Inr \<lparr>message = ''Vote removed'', voted = False\<rparr>
                       \<and> \<not> has_voted s2 (u_id current_user) feature_id
                       \<and> votes s2 = votes s)))"
proof (cases "has_voted s (u_id current_user) feature_id")
  case False
  let ?a = "s\<lparr>votes := votes s @ [new_vote s (u_id current_user) feature_id now],
               votes_id_seq := votes_id_seq s + 1\<rparr>"
  have first: "vote_feature s now feature_id current_user =
      (?a, Inr \<lparr>message = ''Vote added'', voted = True\<rparr>)"
    by (rule vote_feature_add [OF ok usr ftr False])
  have ok_a: "store_ok ?a" by (rule store_ok_add_vote [OF ok usr ftr False])
  have ftr_a: "feature_id \<in> set (map f_id (features ?a))" using ftr by simp
  have voted_a: "has_voted ?a (u_id current_user) feature_id" by (rule has_voted_after_add)
  have restored: "unvote ?a (u_id current_user) feature_id = s\<lparr>votes_id_seq := votes_id_seq s + 1\<rparr>"
    by (rule unvote_add [OF False])
  have second: "vote_feature ?a later feature_id current_user =
      (s\<lparr>votes_id_seq := votes_id_seq s + 1\<rparr>, Inr \<lparr>message = ''Vote removed'', voted = False\<rparr>)"
    using vote_feature_unvote(1) [OF ok_a ftr_a voted_a, of later] unfolding restored .
  have same: "has_voted (s\<lparr>votes_id_seq := votes_id_seq s + 1\<rparr>) (u_id current_user) feature_id
      = has_voted s (u_id current_user) feature_id"
    by (simp add: has_voted_def)
  have rows: "length (vote_rows (s\<lparr>votes_id_seq := votes_id_seq s + 1\<rparr>) feature_id)
      = length (vote_rows s feature_id)"
    by (simp add: vote_rows_def)
  have kept: "votes (s\<lparr>votes_id_seq := votes_id_seq s + 1\<rparr>) = votes s" by simp
  show ?thesis
    apply (simp only: first prod.case second)
    using False same rows kept by simp
next
  case True
  let ?u = "unvote s (u_id current_user) feature_id"
  let ?b = "?u\<lparr>votes := votes ?u @ [new_vote ?u (u_id current_user) feature_id later],
               votes_id_seq := votes_id_seq ?u + 1\<rparr>"
  have first: "vote_feature s now feature_id current_user =
      (?u, Inr \<lparr>message = ''Vote removed'', voted = False\<rparr>)"
    by (rule vote_feature_unvote(1) [OF ok ftr True])
  have ok_u: "store_ok ?u" by (rule vote_feature_unvote(4) [OF ok ftr True])
  have no_u: "\<not> has_voted ?u (u_id current_user) feature_id"
    by (rule vote_feature_unvote(2) [OF ok ftr True])
  have usr_u: "u_id current_user \<in> set (map u_id (users ?u))" using usr by (simp add: unvote_frame)
  have ftr_u: "feature_id \<in> set (map f_id (features ?u))" using ftr by (simp add: unvote_frame)
  have second: "vote_feature ?u later feature_id current_user =
      (?b, Inr \<lparr>message = ''Vote added'', voted = True\<rparr>)"
    by (rule vote_feature_add [OF ok_u usr_u ftr_u no_u])
  have rows: "length (vote_rows ?b feature_id) = length (vote_rows s feature_id)"
    using vote_rows_unvote [OF ok True] by (simp add: vote_rows_add)
  have voted_b: "has_voted ?b (u_id current_user) feature_id" by (rule has_voted_after_add)
  show ?thesis
    apply (simp only: first prod.case second)
    using True rows voted_b by simp
qed

text \<open>The theorem on the run: bob toggles twice on feature 2.\<close>

theorem double_toggle_witness:
  "(case vote_feature demo_features 300 2 bob of
      (s1, r1) \<Rightarrow>
        (case vote_feature s1 400 2 bob of
           (s2, r2) \<Rightarrow>
              r1 = Inr \<lparr>message = ''Vote added'', voted = True\<rparr>
            \<and> r2 = Inr \<lparr>message = ''Vote removed'', voted = False\<rparr>
            \<and> \<not> has_voted s2 2 2
            \<and> length (vote_rows s2 2) = 0 \<and> length (vote_rows demo_features 2) = 0))"
proof -
  have a: "store_ok demo_features" by code_simp
  have b: "u_id bob \<in> set (map u_id (users demo_features))" by code_simp
  have c: "2 \<in> set (map f_id (features demo_features))" by code_simp
  have d: "\<not> has_voted demo_features (u_id bob) 2" by code_simp
  have e: "length (vote_rows demo_features 2) = 0" by code_simp
  have u: "u_id bob = 2" by code_simp
  from double_toggle [OF a b c, where now = 300 and later = 400] d e u show ?thesis
    by (auto split: prod.splits)
qed

subsection \<open>Two requests that both take the insert path\<close>

text \<open>
  Claim C3, as amended. Two requests of the same user for the same feature have both
  made their reads in a store without the vote, so both go on to insert. The commits
  reach the database one after the other. The first inserts the row and answers
  \<open>voted = True\<close>. The second is rejected by the unique constraint: the request
  ends with the \<open>IntegrityError\<close>, which \<open>vote_feature\<close> does not catch,
  and changes no table. The store then holds exactly one Vote row for the pair.
\<close>

theorem concurrent_insert_loser_raises:
  assumes ok: "store_ok s"
    and usr: "u_id current_user \<in> set (map u_id (users s))"
    and ftr: "feature_id \<in> set (map f_id (features s))"
    and nov: "\<not> has_voted s (u_id current_user) feature_id"
  shows "vote_feature_query s feature_id current_user = Inr None
     \<and> (case vote_feature_commit s now feature_id current_user None of
          (s1, r1) \<Rightarrow>
            (case vote_feature_commit s1 later feature_id current_user None of
               (s2, r2) \<Rightarrow>
                  r1 = Inr \<lparr>message = ''Vote added'', voted = True\<rparr>
                \<and> r2 = Inl IntegrityError
                \<and> users s2 = users s1 \<and> features s2 = features s1 \<and> votes s2 = votes s1
                \<and> length (filter (\<lambda>v. v_user_id v = u_id current_user
                                       \<and> v_feature_id v = feature_id) (votes s2)) = 1))"
proof -
  let ?a = "s\<lparr>votes := votes s @ [new_vote s (u_id current_user) feature_id now],
               votes_id_seq := votes_id_seq s + 1\<rparr>"
  from nov have q: "find (\<lambda>v. v_user_id v = u_id current_user \<and> v_feature_id v = feature_id)
      (votes s) = None"
    by (simp add: has_voted_def)
  then have none: "filter (\<lambda>v. v_user_id v = u_id current_user \<and> v_feature_id v = feature_id)
      (votes s) = []"
    by (simp add: find_eq_None filter_empty_conv)
  have query: "vote_feature_query s feature_id current_user = Inr None"
    using vote_feature_query_found [OF ftr] q by simp
  have first: "vote_feature_commit s now feature_id current_user None =
      (?a, Inr \<lparr>message = ''Vote added'', voted = True\<rparr>)"
    by (simp add: vote_feature_commit_def insert_vote_ok [OF ok usr ftr nov])
  have "has_voted ?a (u_id current_user) feature_id" by (rule has_voted_after_add)
  then have second: "vote_feature_commit ?a later feature_id current_user None =
      (?a, Inl IntegrityError)"
    by (simp add: vote_feature_commit_def insert_vote_duplicate)
  have count: "length (filter (\<lambda>v. v_user_id v = u_id current_user
      \<and> v_feature_id v = feature_id) (votes ?a)) = 1"
    using none by (simp add: new_vote_def)
  show ?thesis
    apply (simp only: first prod.case second)
    using query count by simp
qed

text \<open>
  The claim as it was stated fails on the run: bob's second request, which read before the
  first committed, does not get an answer that says the vote is there; it raises.
\<close>

theorem concurrent_insert_counterexample:
  "vote_feature_query demo_features 2 bob = Inr None
   \<and> snd (vote_feature_commit (fst (vote_feature_commit demo_features 300 2 bob None))
        301 2 bob None) = Inl IntegrityError"
  by code_simp

text \<open>The amended theorem on the run.\<close>

theorem concurrent_insert_loser_raises_witness:
  "vote_feature_commit demo_features 300 2 bob None =
     (demo_voted, Inr \<lparr>message = ''Vote added'', voted = True\<rparr>)
   \<and> snd (vote_feature_commit demo_voted 301 2 bob None) = Inl IntegrityError
   \<and> votes (fst (vote_feature_commit demo_voted 301 2 bob None)) = votes demo_voted
   \<and> length (filter (\<lambda>v. v_user_id v = 2 \<and> v_feature_id v = 2) (votes demo_voted)) = 1"
proof -
  have a: "store_ok demo_features" by code_simp
  have b: "u_id bob \<in> set (map u_id (users demo_features))" by code_simp
  have c: "2 \<in> set (map f_id (features demo_features))" by code_simp
  have d: "\<not> has_voted demo_features (u_id bob) 2" by code_simp
  have e: "fst (vote_feature_commit demo_features 300 2 bob None) = demo_voted" by code_simp
  have u: "u_id bob = 2" by code_simp
  from concurrent_insert_loser_raises [OF a b c d, where now = 300 and later = 301] e u show ?thesis
    by (auto split: prod.splits)
qed

subsection \<open>Registration\<close>

text \<open>
  Claim C10. When the username or the email of the request is already that of a user,
  \<open>register\<close> ends with the 400 and the store is the one it was given: no row is
  added, none is changed, and the outcome does not depend on the salt, so no digest
  was computed for it.
\<close>

theorem register_conflict_changes_nothing:
  assumes "uc_username user \<in> set (map username (users s))
         \<or> uc_email user \<in> set (map email (users s))"
  shows "register s now salt user =
     (s, Inl (HTTPException 400 ''Username or email already registered''))"
proof -
  from assms have "\<exists>u\<in>set (users s). username u = uc_username user \<or> email u = uc_email user"
    by auto
  then obtain db_user where
    "find (\<lambda>u. username u = uc_username user \<or> email u = uc_email user) (users s) = Some db_user"
    using find_eq_None [of "\<lambda>u. username u = uc_username user \<or> email u = uc_email user" "users s"]
    by auto
  then show ?thesis by (simp add: register_def)
qed

text \<open>The theorem on the run: carol registers with alice's email.\<close>

theorem register_conflict_changes_nothing_witness:
  "register demo_users 120 ''salt-c''
     \<lparr>uc_username = ''carol'', uc_email = ''alice@example.org'', uc_password = ''x''\<rparr> =
     (demo_users, Inl (HTTPException 400 ''Username or email already registered''))"
proof -
  have "uc_username \<lparr>uc_username = ''carol'', uc_email = ''alice@example.org'', uc_password = ''x''\<rparr>
           \<in> set (map username (users demo_users))
      \<or> uc_email \<lparr>uc_username = ''carol'', uc_email = ''alice@example.org'', uc_password = ''x''\<rparr>
           \<in> set (map email (users demo_users))"
    by code_simp
  from register_conflict_changes_nothing [OF this] show ?thesis .
qed

subsection \<open>Tokens\<close>

lemma map_of_dict_update:
  "map_of (dict_update k v d) k' = (if k' = k then Some v else map_of d k')"
  by (induction d) auto

lemma jwt_decode_issued:
  assumes "later \<le> expire"
  shows "jwt_decode (jwt_encode (dict_update ''exp'' (JNumber expire) [(''sub'', JString name)])
            key ALGORITHM) key [ALGORITHM] later
         = Inr (dict_update ''exp'' (JNumber expire) [(''sub'', JString name)])"
  using assms
  by (simp add: jwt_decode_def jwt_encode_def validate_exp_def validate_sub_def)



lemma create_access_token_sub:
  "create_access_token secret_key [(''sub'', JString name)] expires_delta now =
     jwt_encode (dict_update ''exp''
         (JNumber (now + (case expires_delta of
                            Some delta \<Rightarrow> if delta \<noteq> 0 then delta else 15 * 60
                          | None \<Rightarrow> 15 * 60)))
         [(''sub'', JString name)])
       secret_key ALGORITHM"
  by (simp add: create_access_token_def Let_def split: option.splits)

lemma get_current_user_issued:
  assumes known: "find (\<lambda>u. username u = name) (users s) = Some user"
    and fresh: "later \<le> now + (case expires_delta of
                                  Some delta \<Rightarrow> if delta \<noteq> 0 then delta else 15 * 60
                                | None \<Rightarrow> 15 * 60)"
  shows "get_current_user secret_key s later
           (create_access_token secret_key [(''sub'', JString name)] expires_delta now)
         = Inr user"
  unfolding create_access_token_sub get_current_user_def jwt_decode_issued [OF fresh]
  using known by simp

text \<open>
  The tokens the program issues itself, at \<open>login\<close>, carry the name of a user of
  the store: they are accepted for their 30 minutes.
\<close>

lemma login_then_validate:
  assumes "login secret_key s now name password = Inr tok"
    and "later \<le> now + 30 * 60"
  shows "\<exists>user. get_current_user secret_key s later tok = Inr user \<and> username user = name
           \<and> verify_password password (password_hash user) = Inr True"
proof -
  from assms(1) obtain user where auth: "authenticate_user s name password = Inr (Some user)"
    and tok: "tok = create_access_token secret_key [(''sub'', JString (username user))]
                 (Some (ACCESS_TOKEN_EXPIRE_MINUTES * 60)) now"
    by (auto simp: login_def split: sum.splits option.splits)
  from auth have known: "find (\<lambda>u. username u = name) (users s) = Some user"
    and pw: "verify_password password (password_hash user) = Inr True"
    by (auto simp: authenticate_user_def split: option.splits sum.splits if_splits)
  from find_SomeD [OF known] have name: "username user = name" by simp
  from assms(2) have "later \<le> now + (case Some (ACCESS_TOKEN_EXPIRE_MINUTES * 60) of
      Some delta \<Rightarrow> if delta \<noteq> 0 then delta else 15 * 60 | None \<Rightarrow> 15 * 60)"
    by (simp add: ACCESS_TOKEN_EXPIRE_MINUTES_def)
  from get_current_user_issued [OF known this] tok name pw show ?thesis by simp
qed













subsection \<open>Passwords\<close>




subsection \<open>Listing the features\<close>








subsection \<open>Deleting a feature\<close>

text \<open>
  What \<open>delete_feature\<close> does for the owner of a feature: with a Vote row on the
  feature the commit raises and nothing is deleted; without one the feature's row is
  deleted and the votes are left as they are.
\<close>

lemma delete_feature_owner:
  assumes "find (\<lambda>f. f_id f = feature_id \<and> f_user_id f = u_id current_user) (features s)
     = Some feature"
  shows "delete_feature s feature_id current_user =
     (if vote_rows s feature_id \<noteq> [] then (s, Inl IntegrityError)
      else (s\<lparr>features := filter (\<lambda>f. f_id f \<noteq> feature_id) (features s)\<rparr>,
            Inr ''Feature deleted successfully''))"
proof -
  from find_SomeD [OF assms] have f: "feature \<in> set (features s)" "f_id feature = feature_id"
    by simp_all
  then have present: "f_id feature \<in> set (map f_id (features s))" by (metis imageI set_map)
  have "vote_rows s feature_id \<noteq> [] \<longleftrightarrow> feature_id \<in> set (map v_feature_id (votes s))"
    by (auto simp: vote_rows_def filter_empty_conv)
  with assms f(2) present show ?thesis
    by (simp add: delete_feature_def delete_feature_row_def)
qed

text \<open>
  Claim C7. The claim does not hold of the code: here alice deletes her feature 2, on
  which bob has voted. The request ends with the \<open>IntegrityError\<close> of the commit;
  neither the feature nor its Vote row is removed.
\<close>

theorem delete_feature_with_votes_raises:
  "delete_feature demo_voted 2 alice = (demo_voted, Inl IntegrityError)
   \<and> length (vote_rows demo_voted 2) = 1"
  by code_simp

subsection \<open>The displayed vote count\<close>

text \<open>
  No toggle touches the \<open>features\<close> table, so the stored \<open>vote_count\<close> of every
  feature stays what \<open>create_feature\<close> made it.
\<close>

lemma vote_feature_keeps_features:
  "features (fst (vote_feature s now feature_id current_user)) = features s"
  by (auto simp: vote_feature_def vote_feature_query_def vote_feature_commit_def
      insert_vote_def delete_vote_def Let_def split: option.splits sum.splits if_splits)

text \<open>
  Claim C1. The claim does not hold of the code: bob's vote adds a Vote row for
  feature 2, and the listing still displays the count 0 for it.
\<close>

theorem displayed_count_drifts:
  "vote_feature demo_features 300 2 bob =
     (demo_voted, Inr \<lparr>message = ''Vote added'', voted = True\<rparr>)
   \<and> map_sum id (map (\<lambda>r. (r_id r, r_vote_count r))) (get_features demo_voted 0 100 ''votes'')
       = Inr [(1, 0), (2, 0)]
   \<and> length (vote_rows demo_voted 2) = 1"
  by code_simp

end
